theory Spec2Isabelle
  imports Main "HOL-Library.Word" "HOL-Library.Sublist"
begin

section \<open>JavaScript strings\<close>

text \<open>
  A JavaScript string is a sequence of UTF-16 code units. \<open>slice\<close>, \<open>length\<close>,
  \<open>includes\<close> and the regular expressions of \<^verbatim>\<open>main.js\<close> (none has the \<^verbatim>\<open>u\<close> flag)
  all work on code units, so a string is modelled as a list of 16-bit words.
  \<open>js\<close> reads an ASCII literal of the source.
\<close>

type_synonym jschar = "16 word"
type_synonym jsstring = "jschar list"

definition js :: "string \<Rightarrow> jsstring" where
  "js s = map of_char s"

text \<open>\<^verbatim>\<open>s.slice(0, n)\<close> for a literal \<open>n \<ge> 0\<close>.\<close>

definition slice0 :: "nat \<Rightarrow> jsstring \<Rightarrow> jsstring" where
  "slice0 n s = take n s"

text \<open>
  \<^verbatim>\<open>s.trim()\<close> removes leading and trailing WhiteSpace and LineTerminator code points
  (ECMA-262, TrimString): TAB, LF, VT, FF, CR, SP, NBSP, U+1680, U+2000..U+200A, U+2028,
  U+2029, U+202F, U+205F, U+3000 and U+FEFF.
\<close>

definition isWhiteSpace :: "jschar \<Rightarrow> bool" where
  "isWhiteSpace c \<longleftrightarrow>
     c = 0x09 \<or> c = 0x0A \<or> c = 0x0B \<or> c = 0x0C \<or> c = 0x0D \<or> c = 0x20 \<or> c = 0xA0 \<or>
     c = 0x1680 \<or> (0x2000 \<le> c \<and> c \<le> 0x200A) \<or> c = 0x2028 \<or> c = 0x2029 \<or>
     c = 0x202F \<or> c = 0x205F \<or> c = 0x3000 \<or> c = 0xFEFF"

definition trim :: "jsstring \<Rightarrow> jsstring" where
  "trim s = rev (dropWhile isWhiteSpace (rev (dropWhile isWhiteSpace s)))"

text \<open>\<^verbatim>\<open>s.split(d)\<close> for a one-character separator: the empty string gives one empty piece.\<close>

fun js_split :: "jschar \<Rightarrow> jsstring \<Rightarrow> jsstring list" where
  "js_split d [] = [[]]"
| "js_split d (c # cs) =
     (if c = d then [] # js_split d cs
      else (case js_split d cs of [] \<Rightarrow> [[c]] | x # xs \<Rightarrow> (c # x) # xs))"

text \<open>\<^verbatim>\<open>parts.join(sep)\<close>.\<close>

fun join :: "jsstring \<Rightarrow> jsstring list \<Rightarrow> jsstring" where
  "join sep [] = []"
| "join sep [x] = x"
| "join sep (x # y # ys) = x @ sep @ join sep (y # ys)"

text \<open>\<^verbatim>\<open>s.includes(t)\<close>: \<open>t\<close> occurs in \<open>s\<close> as a contiguous run of code units, case-sensitively.\<close>

fun js_includes :: "jsstring \<Rightarrow> jsstring \<Rightarrow> bool" where
  "js_includes [] t = (t = [])"
| "js_includes (c # cs) t = (prefix t (c # cs) \<or> js_includes cs t)"

text \<open>\<^verbatim>\<open>s.endsWith(t)\<close>.\<close>

definition endsWith :: "jsstring \<Rightarrow> jsstring \<Rightarrow> bool" where
  "endsWith s t \<longleftrightarrow> length t \<le> length s \<and> drop (length s - length t) s = t"

text \<open>
  \<^verbatim>\<open>s.toLowerCase()\<close>, on the letters A..Z. The source lowers only a serialised URL, which
  is ASCII, and then only asks whether the result ends in \<^verbatim>\<open>.pdf\<close>.
\<close>

definition toLowerCase :: "jsstring \<Rightarrow> jsstring" where
  "toLowerCase s = map (\<lambda>c. if 0x41 \<le> c \<and> c \<le> 0x5A then c + 0x20 else c) s"

subsection \<open>Regular expressions of the source\<close>

text \<open>
  Every \<^verbatim>\<open>/.../i\<close> pattern of the source is an alternation of ASCII literals, tested
  unanchored. Without the \<^verbatim>\<open>u\<close> flag, ignore-case matching compares code units after
  Canonicalize, which maps a..z to A..Z and never maps a code unit of 128 or more to one
  below 128; against ASCII literals that is the comparison below.
\<close>

definition canonicalize :: "jschar \<Rightarrow> jschar" where
  "canonicalize c = (if 0x61 \<le> c \<and> c \<le> 0x7A then c - 0x20 else c)"

fun matches_here_i :: "jsstring \<Rightarrow> jsstring \<Rightarrow> bool" where
  "matches_here_i [] s = True"
| "matches_here_i (p # ps) [] = False"
| "matches_here_i (p # ps) (c # cs) = (canonicalize p = canonicalize c \<and> matches_here_i ps cs)"

text \<open>\<^verbatim>\<open>/a1|a2|...|an/i.test(s)\<close>: some alternative matches at some position of \<open>s\<close>.\<close>

fun regex_test_i :: "jsstring list \<Rightarrow> jsstring \<Rightarrow> bool" where
  "regex_test_i alts [] = list_ex (\<lambda>a. matches_here_i a []) alts"
| "regex_test_i alts (c # cs) =
     (list_ex (\<lambda>a. matches_here_i a (c # cs)) alts \<or> regex_test_i alts cs)"

text \<open>
  \<^verbatim>\<open>s.match(/\b(20\d{2}|19\d{2})\b/)\<close>: the leftmost four digits 20dd or 19dd with a word
  boundary on both sides; \<^verbatim>\<open>\d\<close> is 0..9 and a word character is one of A..Z, a..z, 0..9, _.
  The flag of \<open>match_year\<close> says whether the code unit before the current position is a
  word character.
\<close>

definition isDigit :: "jschar \<Rightarrow> bool" where
  "isDigit c \<longleftrightarrow> 0x30 \<le> c \<and> c \<le> 0x39"

definition isWordChar :: "jschar \<Rightarrow> bool" where
  "isWordChar c \<longleftrightarrow>
     isDigit c \<or> (0x41 \<le> c \<and> c \<le> 0x5A) \<or> (0x61 \<le> c \<and> c \<le> 0x7A) \<or> c = 0x5F"

fun year_here :: "jsstring \<Rightarrow> bool" where
  "year_here (a # b # c # d # rest) =
     (((a = 0x32 \<and> b = 0x30) \<or> (a = 0x31 \<and> b = 0x39)) \<and> isDigit c \<and> isDigit d \<and>
      (case rest of [] \<Rightarrow> True | e # _ \<Rightarrow> \<not> isWordChar e))"
| "year_here _ = False"

fun match_year :: "bool \<Rightarrow> jsstring \<Rightarrow> jsstring option" where
  "match_year prev [] = None"
| "match_year prev (c # cs) =
     (if \<not> prev \<and> year_here (c # cs) then Some (take 4 (c # cs))
      else match_year (isWordChar c) cs)"

subsection \<open>Sets in insertion order\<close>

text \<open>
  \<^verbatim>\<open>Array.from(new Set(xs))\<close>: a JavaScript Set keeps its members in insertion order
  and ignores the insertion of a member it already has.
\<close>

definition Set_add :: "'a list \<Rightarrow> 'a \<Rightarrow> 'a list" where
  "Set_add s x = (if x \<in> set s then s else s @ [x])"

definition Array_from_Set :: "'a list \<Rightarrow> 'a list" where
  "Array_from_Set xs = foldl Set_add [] xs"

section \<open>The URL constructor\<close>

text \<open>
  The WHATWG URL parser is the platform's. It is a parameter of the model:
  \<open>url_host u\<close> is \<^verbatim>\<open>new URL(u).host\<close> and \<open>url_href h b\<close> is
  \<^verbatim>\<open>new URL(h, b).toString()\<close>; \<open>None\<close> stands for the TypeError the constructor
  throws on input it cannot parse.
\<close>

record url_api =
  url_host :: "jsstring \<Rightarrow> jsstring option"
  url_href :: "jsstring \<Rightarrow> jsstring \<Rightarrow> jsstring option"

datatype exn = TypeError

section \<open>Input and requests\<close>

text \<open>
  The two options of the actor input that the request handler reads, and the part of a
  crawler request it reads: \<^verbatim>\<open>request.url\<close>, \<^verbatim>\<open>request.loadedUrl\<close> (undefined is
  \<open>None\<close>) and \<^verbatim>\<open>request.userData.startHost\<close> (undefined is \<open>None\<close>).
\<close>

record config =
  detectPdfLinks :: bool
  followInternalOnly :: bool

record request =
  req_url :: jsstring
  req_loadedUrl :: "jsstring option"
  userData_startHost :: "jsstring option"

text \<open>\<^verbatim>\<open>a || b\<close> where \<open>a\<close> is a string or undefined: undefined and the empty string are falsy.\<close>

definition js_or :: "jsstring option \<Rightarrow> jsstring \<Rightarrow> jsstring" where
  "js_or a b = (case a of None \<Rightarrow> b | Some s \<Rightarrow> if s = [] then b else s)"

text \<open>
  The \<^verbatim>\<open>transformRequestFunction\<close> given to \<^verbatim>\<open>enqueueLinks\<close>. \<open>request\<close> is the request
  of the page being handled, \<open>r\<close> the candidate; \<open>None\<close> is the \<^verbatim>\<open>null\<close> that drops the
  candidate. Both constructor calls sit in one \<^verbatim>\<open>try\<close> whose \<^verbatim>\<open>catch\<close> is empty, so a
  throw of either falls through to \<^verbatim>\<open>return r\<close>.
\<close>

definition transformRequestFunction ::
  "config \<Rightarrow> url_api \<Rightarrow> request \<Rightarrow> request \<Rightarrow> request option" where
  "transformRequestFunction cfg api request r =
     (if followInternalOnly cfg then
        (case url_host api (js_or (userData_startHost request) (req_url request)) of
           None \<Rightarrow> Some r
         | Some startHost \<Rightarrow>
             (case url_host api (req_url r) of
                None \<Rightarrow> Some r
              | Some candidateHost \<Rightarrow> if candidateHost \<noteq> startHost then None else Some r))
      else Some r)"

section \<open>The parsed page\<close>

text \<open>
  The handler sees the page only through the Cheerio function \<^verbatim>\<open>$\<close>. An element is
  what the handler reads of it: its attributes, its text (\<^verbatim>\<open>$(el).text()\<close>, the text of
  the element and of its descendants) and its next sibling element. A selection is the
  list of matched elements in document order, and the page is the function giving the
  selection of each selector the source uses:
  \<open>MetaProperty p\<close> is \<^verbatim>\<open>meta[property="p"]\<close>, \<open>MetaName n\<close> is \<^verbatim>\<open>meta[name="n"]\<close>,
  and \<open>Css s\<close> is the selector written \<open>s\<close>. \<open>Css ''*''\<close> is every element of the
  document, ancestors before descendants.
\<close>

datatype element =
  Element (el_attrs: "(string \<times> jsstring) list") (el_text: jsstring) (el_next: "element option")

type_synonym selection = "element list"

datatype selector = MetaProperty string | MetaName string | Css string

type_synonym cheerio = "selector \<Rightarrow> selection"

text \<open>\<^verbatim>\<open>.first()\<close>, \<^verbatim>\<open>.attr(name)\<close> (of the first element; undefined when there is
  none or it lacks the attribute), \<^verbatim>\<open>.text()\<close> (of all elements, concatenated)
  and \<^verbatim>\<open>.next()\<close> (the next sibling element of each element that has one; the source
  calls it on selections of at most one element).\<close>

definition sel_first :: "selection \<Rightarrow> selection" where
  "sel_first s = take 1 s"

definition sel_attr :: "string \<Rightarrow> selection \<Rightarrow> jsstring option" where
  "sel_attr name s = (case s of [] \<Rightarrow> None | e # _ \<Rightarrow> map_of (el_attrs e) name)"

definition sel_text :: "selection \<Rightarrow> jsstring" where
  "sel_text s = concat (map el_text s)"

definition sel_next :: "selection \<Rightarrow> selection" where
  "sel_next s = concat (map (\<lambda>e. case el_next e of None \<Rightarrow> [] | Some n \<Rightarrow> [n]) s)"

text \<open>The pseudo-class \<^verbatim>\<open>:contains("t")\<close> keeps an element when its text includes \<open>t\<close>;
  the comparison is case-sensitive. The text it looks at is taken to be the one
  \<^verbatim>\<open>.text()\<close> returns. \<^verbatim>\<open>.length\<close> of a selection is the length of the list.\<close>

definition contains :: "string \<Rightarrow> element \<Rightarrow> bool" where
  "contains t el = js_includes (el_text el) (js t)"

section \<open>Metadata heuristics\<close>

definition company_heuristics :: "cheerio \<Rightarrow> jsstring" where
  "company_heuristics dollar =
     js_or (sel_attr ''content'' (dollar (MetaProperty ''og:site_name'')))
    (js_or (sel_attr ''content'' (dollar (MetaName ''application-name'')))
    (js_or (sel_attr ''content'' (dollar (MetaName ''author'')))
    (js_or (Some (trim (sel_text (sel_first (dollar (Css ''header h1, header h2''))))))
     [])))"

definition title_heuristics :: "cheerio \<Rightarrow> jsstring" where
  "title_heuristics dollar =
     js_or (sel_attr ''content'' (dollar (MetaProperty ''og:title'')))
    (js_or (sel_attr ''content'' (dollar (MetaName ''twitter:title'')))
    (js_or (Some (trim (sel_text (sel_first (dollar (Css ''h1''))))))
    (js_or (Some (trim (sel_text (dollar (Css ''title'')))))
     [])))"

definition date_heuristics :: "cheerio \<Rightarrow> jsstring" where
  "date_heuristics dollar =
     (let date =
        js_or (sel_attr ''content'' (dollar (MetaName ''article:published_time'')))
       (js_or (sel_attr ''datetime'' (sel_first (dollar (Css ''time''))))
       (js_or (Some (trim (sel_text (sel_first (dollar (Css ''time''))))))
        []))
      in if date = [] then
           (let body = slice0 1200 (sel_text (dollar (Css ''body'')))
            in case match_year False body of Some m \<Rightarrow> m | None \<Rightarrow> date)
         else date)"

subsection \<open>Executive summary\<close>

text \<open>
  The selection \<^verbatim>\<open>$('*:contains("Executive Summary"), *:contains("EXECUTIVE SUMMARY"),
  *:contains("Summary")')\<close>, then \<^verbatim>\<open>.filter(...)\<close> with the ignore-case test
  \<^verbatim>\<open>/executive summary|summary/i\<close>, then \<^verbatim>\<open>.first()\<close>.
\<close>

definition execHeading :: "cheerio \<Rightarrow> selection" where
  "execHeading dollar =
     sel_first
       (filter (\<lambda>el. regex_test_i [js ''executive summary'', js ''summary''] (sel_text [el]))
          (filter (\<lambda>el. contains ''Executive Summary'' el \<or> contains ''EXECUTIVE SUMMARY'' el \<or>
                         contains ''Summary'' el)
             (dollar (Css ''*''))))"

text \<open>
  The \<^verbatim>\<open>while (node && tries < 6)\<close> loop. \<open>node\<close> is a Cheerio object, which is truthy
  also when it holds no element, so the loop always runs six times; on an empty selection
  \<^verbatim>\<open>.text()\<close> is empty and \<^verbatim>\<open>.next()\<close> is empty again.
\<close>

function summary_loop :: "selection \<Rightarrow> jsstring list \<Rightarrow> nat \<Rightarrow> jsstring list" where
  "summary_loop node parts tries =
     (if tries < 6 then
        (let txt = trim (sel_text node)
         in summary_loop (sel_next node) (if txt \<noteq> [] then parts @ [txt] else parts) (Suc tries))
      else parts)"
  by pat_completeness auto
termination
  by (relation "measure (\<lambda>(node, parts, tries). 6 - tries)") auto

declare summary_loop.simps [simp del]

definition exec_summary_of :: "cheerio \<Rightarrow> jsstring" where
  "exec_summary_of dollar =
     (let execHeading = execHeading dollar
      in if length execHeading \<noteq> 0 then
           slice0 4000 (join (js [CHR 0x0A, CHR 0x0A]) (summary_loop (sel_next execHeading) [] 0))
         else
           (let p = trim (sel_text (sel_first (dollar (Css ''article p, .content p, .report p''))))
            in if p \<noteq> [] then slice0 4000 p else []))"

subsection \<open>PDF links\<close>

text \<open>
  The body of \<^verbatim>\<open>$('a[href]').each(...)\<close>, anchor by anchor. An anchor whose \<^verbatim>\<open>href\<close> is
  undefined or empty is passed over before any URL is built; \<^verbatim>\<open>new URL(href, loadedUrl)\<close>
  may throw, and nothing inside the loop catches it.
\<close>

fun pdf_each :: "url_api \<Rightarrow> jsstring \<Rightarrow> selection \<Rightarrow> jsstring list \<Rightarrow> exn + jsstring list" where
  "pdf_each api loadedUrl [] pdfs = Inr pdfs"
| "pdf_each api loadedUrl (el # els) pdfs =
     (case sel_attr ''href'' [el] of
        None \<Rightarrow> pdf_each api loadedUrl els pdfs
      | Some href \<Rightarrow>
          if href = [] then pdf_each api loadedUrl els pdfs
          else (case url_href api href loadedUrl of
                  None \<Rightarrow> Inl TypeError
                | Some absUrl \<Rightarrow>
                    if endsWith (toLowerCase absUrl) (js ''.pdf'') \<or>
                       regex_test_i [js ''esg'', js ''sustainability'', js ''sustainability-report'',
                                     js ''annual-report'', js ''csr''] href
                    then pdf_each api loadedUrl els (pdfs @ [absUrl])
                    else pdf_each api loadedUrl els pdfs))"

definition find_pdfs :: "config \<Rightarrow> url_api \<Rightarrow> cheerio \<Rightarrow> jsstring \<Rightarrow> exn + jsstring list" where
  "find_pdfs cfg api dollar loadedUrl =
     (if detectPdfLinks cfg then pdf_each api loadedUrl (dollar (Css ''a[href]'')) []
      else Inr [])"

subsection \<open>Tags\<close>

definition tags_of :: "cheerio \<Rightarrow> jsstring list" where
  "tags_of dollar =
     (let tags0 = (case sel_attr ''content'' (dollar (MetaName ''keywords'')) of
                     None \<Rightarrow> []
                   | Some metaKeywords \<Rightarrow>
                       if metaKeywords = [] then []
                       else map trim (js_split 0x2C metaKeywords));
          tags1 = (if regex_test_i [js ''esg''] (sel_text (dollar (Css ''body'')))
                   then tags0 @ [js ''esg''] else tags0)
      in if regex_test_i [js ''sustainability''] (sel_text (dollar (Css ''body'')))
         then tags1 @ [js ''sustainability''] else tags1)"

section \<open>The request handler\<close>

text \<open>
  The record given to \<^verbatim>\<open>Dataset.pushData\<close>, and the calls of the logger (the payload is
  the URL each call logs).
\<close>

record output_record =
  company :: jsstring
  title :: jsstring
  date :: jsstring
  pdf_url :: jsstring
  exec_summary :: jsstring
  tags :: "jsstring list"
  url :: jsstring

datatype log_event =
    Info_Processing jsstring
  | Info_Saved_PDF_candidate jsstring
  | Info_Saved_HTML_report_candidate jsstring
  | Debug_No_report_like_content jsstring
  | Warning_Extraction_error jsstring

definition page_record :: "cheerio \<Rightarrow> jsstring \<Rightarrow> jsstring \<Rightarrow> output_record" where
  "page_record dollar loadedUrl pdfUrl =
     \<lparr>company = company_heuristics dollar,
      title = title_heuristics dollar,
      date = date_heuristics dollar,
      pdf_url = pdfUrl,
      exec_summary = exec_summary_of dollar,
      tags = Array_from_Set (tags_of dollar),
      url = loadedUrl\<rparr>"

text \<open>The \<^verbatim>\<open>for (const pdfUrl of ...)\<close> loop: each turn appends one record to the dataset
  and one line to the log.\<close>

fun save_pdfs ::
  "cheerio \<Rightarrow> jsstring \<Rightarrow> jsstring list \<Rightarrow> output_record list \<times> log_event list \<Rightarrow>
   output_record list \<times> log_event list" where
  "save_pdfs dollar loadedUrl [] st = st"
| "save_pdfs dollar loadedUrl (pdfUrl # rest) (ds, lg) =
     save_pdfs dollar loadedUrl rest
       (ds @ [page_record dollar loadedUrl pdfUrl], lg @ [Info_Saved_PDF_candidate pdfUrl])"

definition isLikelyReport :: "cheerio \<Rightarrow> bool" where
  "isLikelyReport dollar \<longleftrightarrow>
     exec_summary_of dollar \<noteq> [] \<or>
     regex_test_i [js ''sustainability'', js ''esg'', js ''csr'', js ''environmental'', js ''social'',
                   js ''governance'', js ''sustainability report'', js ''esg report'']
       (slice0 2000 (sel_text (dollar (Css ''body''))))"

text \<open>
  The body of the \<^verbatim>\<open>try\<close>. The metadata heuristics cannot throw; the only throw is that
  of the URL constructor while the PDF links are collected, which is before the first
  \<^verbatim>\<open>pushData\<close>. \<open>Inl\<close> is the exception reaching the \<^verbatim>\<open>catch\<close>; \<open>Inr\<close> holds the
  records pushed and the lines logged. \<^verbatim>\<open>pushData\<close> itself is taken to succeed.
\<close>

definition extraction ::
  "config \<Rightarrow> url_api \<Rightarrow> cheerio \<Rightarrow> jsstring \<Rightarrow> exn + output_record list \<times> log_event list" where
  "extraction cfg api dollar loadedUrl =
     (case find_pdfs cfg api dollar loadedUrl of
        Inl err \<Rightarrow> Inl err
      | Inr pdfs \<Rightarrow>
          Inr (if length pdfs \<noteq> 0 then
                 save_pdfs dollar loadedUrl (take 5 (Array_from_Set pdfs)) ([], [])
               else if isLikelyReport dollar then
                 ([page_record dollar loadedUrl []], [Info_Saved_HTML_report_candidate loadedUrl])
               else ([], [Debug_No_report_like_content loadedUrl])))"

text \<open>
  What one run of \<^verbatim>\<open>requestHandler\<close> does: the requests it hands to the queue, the records
  it pushes and the lines it logs. \<open>links\<close> are the candidate requests that
  \<^verbatim>\<open>enqueueLinks\<close> builds from the links of the page; each goes through
  \<open>transformRequestFunction\<close>. The handler returns normally in every case: the \<^verbatim>\<open>catch\<close>
  logs a warning and does not rethrow.
\<close>

record handler_result =
  enqueued :: "request list"
  pushed :: "output_record list"
  logged :: "log_event list"

text \<open>\<^verbatim>\<open>request.loadedUrl ?? request.url\<close>: the URL after redirects when the crawler set it.\<close>

definition loadedUrl_of :: "request \<Rightarrow> jsstring" where
  "loadedUrl_of request = (case req_loadedUrl request of None \<Rightarrow> req_url request | Some u \<Rightarrow> u)"

definition requestHandler ::
  "config \<Rightarrow> url_api \<Rightarrow> request \<Rightarrow> cheerio \<Rightarrow> request list \<Rightarrow> handler_result" where
  "requestHandler cfg api request dollar links =
     (let loadedUrl = loadedUrl_of request;
          enq = List.map_filter (transformRequestFunction cfg api request) links
      in case extraction cfg api dollar loadedUrl of
           Inl err \<Rightarrow>
             \<lparr>enqueued = enq, pushed = [],
              logged = [Info_Processing loadedUrl, Warning_Extraction_error loadedUrl]\<rparr>
         | Inr (ds, lg) \<Rightarrow>
             \<lparr>enqueued = enq, pushed = ds, logged = Info_Processing loadedUrl # lg\<rparr>)"

section \<open>Derived notions and sample inputs\<close>

text \<open>
  A crawl path: each request of the list was a candidate on the page of the request before
  it and passed \<open>transformRequestFunction\<close> there.
\<close>

fun crawl_path :: "config \<Rightarrow> url_api \<Rightarrow> request list \<Rightarrow> bool" where
  "crawl_path cfg api (a # b # rs) =
     (transformRequestFunction cfg api a b = Some b \<and> crawl_path cfg api (b # rs))"
| "crawl_path cfg api _ = True"

text \<open>
  The following sibling elements of an element, nearest first (Cheerio's \<^verbatim>\<open>.nextAll()\<close>),
  and the texts the summary loop keeps of a list of elements: the trimmed text of each,
  when it is not empty.
\<close>

fun nextAll :: "element \<Rightarrow> element list" where
  "nextAll (Element a t None) = []"
| "nextAll (Element a t (Some n)) = n # nextAll n"

definition kept_text :: "element list \<Rightarrow> jsstring list" where
  "kept_text els = filter (\<lambda>t. t \<noteq> []) (map (\<lambda>e. trim (el_text e)) els)"

text \<open>
  A finite excerpt of the URL parser for the sample inputs: on the strings listed it
  gives what the WHATWG parser gives. The samples apply it to three more strings, all of
  which the parser rejects: the bare host \<^verbatim>\<open>example.com\<close> (no scheme and no base) and
  \<^verbatim>\<open>http://[\<close> (an unclosed IPv6 literal), alone or against a base.
\<close>

definition demo_api :: url_api where
  "demo_api =
     \<lparr>url_host = map_of
        [(js ''https://example.com/'', js ''example.com''),
         (js ''https://example.com/about'', js ''example.com''),
         (js ''https://example.com/team'', js ''example.com''),
         (js ''https://other.org/'', js ''other.org'')],
      url_href = (\<lambda>href base.
        if base = js ''https://example.com/'' then
          map_of
            [(js ''/1.pdf'', js ''https://example.com/1.pdf''),
             (js ''/2.pdf'', js ''https://example.com/2.pdf''),
             (js ''/3.pdf'', js ''https://example.com/3.pdf''),
             (js ''/4.pdf'', js ''https://example.com/4.pdf''),
             (js ''/5.pdf'', js ''https://example.com/5.pdf''),
             (js ''/6.pdf'', js ''https://example.com/6.pdf''),
             (js ''/7.pdf'', js ''https://example.com/7.pdf''),
             (js ''/8.pdf'', js ''https://example.com/8.pdf'')] href
        else None)\<rparr>"

definition demo_cfg :: config where
  "demo_cfg = \<lparr>detectPdfLinks = True, followInternalOnly = True\<rparr>"

text \<open>A request without a \<^verbatim>\<open>startHost\<close> tag, and one that carries a tag.\<close>

definition demo_request :: "string \<Rightarrow> request" where
  "demo_request u = \<lparr>req_url = js u, req_loadedUrl = None, userData_startHost = None\<rparr>"

definition demo_tagged :: "string \<Rightarrow> string \<Rightarrow> request" where
  "demo_tagged u t = \<lparr>req_url = js u, req_loadedUrl = None, userData_startHost = Some (js t)\<rparr>"

text \<open>
  A page that is a heading followed by seven paragraphs of a thousand letters each, as a
  parser that adds no enclosing elements yields it.
\<close>

definition demo_par_text :: jsstring where
  "demo_par_text = replicate 1000 0x61"

fun demo_pars :: "nat \<Rightarrow> element option" where
  "demo_pars 0 = None"
| "demo_pars (Suc k) = Some (Element [] demo_par_text (demo_pars k))"

definition demo_long_heading :: element where
  "demo_long_heading = Element [] (js ''Executive Summary'') (demo_pars 7)"

definition demo_long_page :: cheerio where
  "demo_long_page sel =
     (if sel = Css ''*'' then demo_long_heading # nextAll demo_long_heading else [])"

text \<open>
  The value of an attribute with the empty string for a missing one, the first non-empty
  string of a list (the empty string when there is none), and the entries of the keywords
  meta: its content split at commas and trimmed, and no entry when the meta is missing
  or its content is empty.
\<close>

definition attr_or_empty :: "jsstring option \<Rightarrow> jsstring" where
  "attr_or_empty a = (case a of None \<Rightarrow> [] | Some s \<Rightarrow> s)"

definition first_non_empty :: "jsstring list \<Rightarrow> jsstring" where
  "first_non_empty xs = (case List.find (\<lambda>s. s \<noteq> []) xs of None \<Rightarrow> [] | Some s \<Rightarrow> s)"

definition keyword_entries :: "cheerio \<Rightarrow> jsstring list" where
  "keyword_entries dollar =
     (case sel_attr ''content'' (dollar (MetaName ''keywords'')) of
        None \<Rightarrow> []
      | Some k \<Rightarrow> if k = [] then [] else map trim (js_split 0x2C k))"

text \<open>
  The anchor as the specification words it: the first element, in document order, whose
  text passes the ignore-case test, with no case-sensitive selection before it.
\<close>

definition claimed_execHeading :: "cheerio \<Rightarrow> selection" where
  "claimed_execHeading dollar =
     sel_first
       (filter (\<lambda>el. regex_test_i [js ''executive summary'', js ''summary''] (sel_text [el]))
          (dollar (Css ''*'')))"

text \<open>Sample elements: an anchor with an \<^verbatim>\<open>href\<close>, a meta with a \<^verbatim>\<open>content\<close>, and an
  element with a text and a next sibling.\<close>

definition demo_anchor :: "string \<Rightarrow> element" where
  "demo_anchor h = Element [(''href'', js h)] [] None"

definition demo_meta :: "string \<Rightarrow> element" where
  "demo_meta c = Element [(''content'', js c)] [] None"

definition demo_el :: "string \<Rightarrow> element option \<Rightarrow> element" where
  "demo_el t n = Element [] (js t) n"

text \<open>A page with nine anchors to eight distinct PDF files; a page where the second of two
  anchors has an \<^verbatim>\<open>href\<close> that the URL constructor rejects.\<close>

definition demo_pdf_page :: cheerio where
  "demo_pdf_page sel =
     (if sel = Css ''a[href]'' then
        map demo_anchor [''/1.pdf'', ''/2.pdf'', ''/1.pdf'', ''/3.pdf'', ''/4.pdf'', ''/5.pdf'',
                         ''/6.pdf'', ''/7.pdf'', ''/8.pdf'']
      else [])"

definition demo_bad_link_page :: cheerio where
  "demo_bad_link_page sel =
     (if sel = Css ''a[href]'' then [demo_anchor ''/1.pdf'', demo_anchor ''http://['']
      else [])"

text \<open>Two pages without links whose only element is the body: one names a keyword.\<close>

definition demo_gov_page :: cheerio where
  "demo_gov_page sel =
     (if sel = Css ''body'' \<or> sel = Css ''*'' then [demo_el ''Our Governance model'' None] else [])"

definition demo_shop_page :: cheerio where
  "demo_shop_page sel =
     (if sel = Css ''body'' \<or> sel = Css ''*'' then [demo_el ''Welcome to our shop'' None] else [])"

text \<open>A page with an open-graph title and a level-1 heading; a page with a keywords meta.\<close>

definition demo_title_page :: cheerio where
  "demo_title_page sel =
     (if sel = MetaProperty ''og:title'' then [demo_meta ''OG Title'']
      else if sel = Css ''h1'' then [demo_el ''H1 Title'' None]
      else [])"

definition demo_tags_page :: cheerio where
  "demo_tags_page sel =
     (if sel = MetaName ''keywords'' then [demo_meta ''ESG, esg, Sustainability'']
      else if sel = Css ''body'' then [demo_el ''Our ESG and sustainability work'' None]
      else [])"

text \<open>
  A page whose heading is written in lower case: the heading, a paragraph, and an article
  holding one paragraph.
\<close>

definition demo_lower_para :: element where
  "demo_lower_para = demo_el ''Para'' None"

definition demo_lower_article :: element where
  "demo_lower_article = demo_el ''Para'' None"

definition demo_lower_intro :: element where
  "demo_lower_intro = demo_el ''Intro'' (Some demo_lower_article)"

definition demo_lower_heading :: element where
  "demo_lower_heading = demo_el ''executive summary'' (Some demo_lower_intro)"

definition demo_lower_page :: cheerio where
  "demo_lower_page sel =
     (if sel = Css ''*'' then
        [demo_lower_heading, demo_lower_intro, demo_lower_article, demo_lower_para]
      else if sel = Css ''article p, .content p, .report p'' then [demo_lower_para]
      else [])"

section \<open>Auxiliary facts\<close>

lemmas demo_simps = demo_api_def demo_cfg_def demo_request_def demo_tagged_def js_def js_or_def

subsection \<open>Strings and patterns\<close>

lemma js_includes_sublist: "js_includes s t \<longleftrightarrow> sublist t s"
  by (induction s) (auto simp: sublist_Cons_right)

lemma matches_here_i_iff:
  "matches_here_i p s \<longleftrightarrow> (\<exists>ms ss. s = ms @ ss \<and> map canonicalize ms = map canonicalize p)"
proof (induction p s rule: matches_here_i.induct)
  case (1 s)
  then show ?case by simp
next
  case (2 p ps)
  then show ?case by simp
next
  case (3 p ps c cs)
  show ?case
  proof
    assume "matches_here_i (p # ps) (c # cs)"
    then obtain ms ss where "cs = ms @ ss" "map canonicalize ms = map canonicalize ps"
      and "canonicalize p = canonicalize c" using 3 by auto
    then have "c # cs = (c # ms) @ ss \<and> map canonicalize (c # ms) = map canonicalize (p # ps)"
      by simp
    then show "\<exists>ms ss. c # cs = ms @ ss \<and> map canonicalize ms = map canonicalize (p # ps)"
      by blast
  next
    assume "\<exists>ms ss. c # cs = ms @ ss \<and> map canonicalize ms = map canonicalize (p # ps)"
    then obtain ms ss where a: "c # cs = ms @ ss" and b: "map canonicalize ms = map canonicalize (p # ps)"
      by blast
    from b obtain m ms' where ms: "ms = m # ms'" by (cases ms) auto
    with a b have "cs = ms' @ ss" "map canonicalize ms' = map canonicalize ps" "canonicalize p = canonicalize c"
      by auto
    with 3 show "matches_here_i (p # ps) (c # cs)" by auto
  qed
qed

lemma regex_test_i_iff:
  "regex_test_i alts s \<longleftrightarrow>
     (\<exists>a\<in>set alts. \<exists>ps ms ss. s = ps @ ms @ ss \<and> map canonicalize ms = map canonicalize a)"
proof (induction s)
  case Nil
  then show ?case by (auto simp: list_ex_iff matches_here_i_iff)
next
  case (Cons c cs)
  show ?case
  proof
    assume "regex_test_i alts (c # cs)"
    then consider "list_ex (\<lambda>a. matches_here_i a (c # cs)) alts" | "regex_test_i alts cs" by auto
    then show "\<exists>a\<in>set alts. \<exists>ps ms ss. c # cs = ps @ ms @ ss \<and> map canonicalize ms = map canonicalize a"
    proof cases
      case 1
      then obtain a ms ss where "a \<in> set alts" "c # cs = ms @ ss" "map canonicalize ms = map canonicalize a"
        by (auto simp: list_ex_iff matches_here_i_iff)
      then have "a \<in> set alts \<and> c # cs = [] @ ms @ ss \<and> map canonicalize ms = map canonicalize a" by simp
      then show ?thesis by blast
    next
      case 2
      then obtain a ps ms ss where "a \<in> set alts" "cs = ps @ ms @ ss" "map canonicalize ms = map canonicalize a"
        using Cons by blast
      then have "a \<in> set alts \<and> c # cs = (c # ps) @ ms @ ss \<and> map canonicalize ms = map canonicalize a" by simp
      then show ?thesis by blast
    qed
  next
    assume "\<exists>a\<in>set alts. \<exists>ps ms ss. c # cs = ps @ ms @ ss \<and> map canonicalize ms = map canonicalize a"
    then obtain a ps ms ss where a: "a \<in> set alts" and e: "c # cs = ps @ ms @ ss"
      and m: "map canonicalize ms = map canonicalize a" by blast
    show "regex_test_i alts (c # cs)"
    proof (cases ps)
      case Nil
      with e m have "matches_here_i a (c # cs)" by (auto simp: matches_here_i_iff)
      with a show ?thesis by (auto simp: list_ex_iff)
    next
      case (Cons p ps')
      with e have "cs = ps' @ ms @ ss" by simp
      with a m have "regex_test_i alts cs" using Cons.IH by blast
      then show ?thesis by simp
    qed
  qed
qed

lemma includes_imp_regex:
  assumes "js_includes s t" and "a \<in> set alts" and "map canonicalize t = map canonicalize a"
  shows "regex_test_i alts s"
proof -
  from assms(1) obtain ps ss where "s = ps @ t @ ss" by (auto simp: js_includes_sublist sublist_def)
  with assms(2,3) show ?thesis unfolding regex_test_i_iff by blast
qed

lemma includes_trans: "js_includes s t \<Longrightarrow> js_includes t u \<Longrightarrow> js_includes s u"
  unfolding js_includes_sublist by (rule sublist_order.order_trans)

lemma Summary_in_Executive: "js_includes (js ''Executive Summary'') (js ''Summary'')"
  by (simp add: js_def)

lemma heading_filter_redundant:
  "(contains ''Executive Summary'' el \<or> contains ''EXECUTIVE SUMMARY'' el \<or> contains ''Summary'' el)
    \<and> regex_test_i [js ''executive summary'', js ''summary''] (sel_text [el])
  \<longleftrightarrow> contains ''Summary'' el \<or> contains ''EXECUTIVE SUMMARY'' el"
proof -
  have 1: "contains ''Executive Summary'' el \<Longrightarrow> contains ''Summary'' el"
    unfolding contains_def using includes_trans [OF _ Summary_in_Executive] by blast
  have 2: "contains ''Summary'' el \<Longrightarrow> regex_test_i [js ''executive summary'', js ''summary''] (el_text el)"
    unfolding contains_def
    by (erule includes_imp_regex [where a = "js ''summary''"]) (simp_all add: js_def canonicalize_def)
  have 3: "contains ''EXECUTIVE SUMMARY'' el \<Longrightarrow> regex_test_i [js ''executive summary'', js ''summary''] (el_text el)"
    unfolding contains_def
    by (erule includes_imp_regex [where a = "js ''executive summary''"]) (simp_all add: js_def canonicalize_def)
  show ?thesis using 1 2 3 by (auto simp: sel_text_def)
qed

lemma execHeading_eq:
  "execHeading dollar = sel_first (filter (\<lambda>el. contains ''Summary'' el \<or> contains ''EXECUTIVE SUMMARY'' el) (dollar (Css ''*'')))"
  unfolding execHeading_def filter_filter
  by (simp only: heading_filter_redundant cong: conj_cong)


lemma sel_next_Nil: "sel_next [] = []"
  by (simp add: sel_next_def)

lemma trim_Nil: "trim [] = []"
  by (simp add: trim_def)

lemma summary_loop_empty: "summary_loop [] parts tries = parts"
proof (induction "[]::selection" parts tries rule: summary_loop.induct)
  case (1 parts tries)
  show ?case
  proof (cases "tries < 6")
    case True
    then have "summary_loop [] parts tries = summary_loop [] parts (Suc tries)"
      by (subst summary_loop.simps) (simp add: sel_next_Nil sel_text_def trim_Nil)
    also have "\<dots> = parts" using 1 True by (simp add: sel_next_Nil sel_text_def trim_Nil)
    finally show ?thesis .
  next
    case False
    then show ?thesis by (subst summary_loop.simps) simp
  qed
qed

lemma sel_next_single: "sel_next [e] = (case el_next e of None \<Rightarrow> [] | Some n \<Rightarrow> [n])"
  by (simp add: sel_next_def)

lemma nextAll_eq: "nextAll e = (case el_next e of None \<Rightarrow> [] | Some n \<Rightarrow> n # nextAll n)"
  by (cases e rule: nextAll.cases) simp_all

lemma summary_loop_single:
  "summary_loop [e] parts tries = parts @ kept_text (take (6 - tries) (e # nextAll e))"
proof (induction "6 - tries" arbitrary: e parts tries)
  case 0
  then show ?case by (subst summary_loop.simps) (simp add: kept_text_def)
next
  case (Suc k)
  then have lt: "tries < 6" and k: "k = 6 - Suc tries" by simp_all
  have unfold: "summary_loop [e] parts tries =
      summary_loop (sel_next [e]) (if trim (el_text e) \<noteq> [] then parts @ [trim (el_text e)] else parts) (Suc tries)"
    using lt by (subst summary_loop.simps) (simp add: sel_text_def Let_def)
  have tk: "take (6 - tries) (e # nextAll e) = e # take (6 - Suc tries) (nextAll e)"
  proof -
    from lt have "6 - tries = Suc (6 - Suc tries)" by arith
    then show ?thesis by (simp only: take_Suc_Cons)
  qed
  show ?case
  proof (cases "el_next e")
    case None
    then show ?thesis
      unfolding unfold tk by (simp add: sel_next_single summary_loop_empty nextAll_eq [of e] kept_text_def)
  next
    case (Some n)
    have "summary_loop [n] ps (Suc tries) = ps @ kept_text (take (6 - Suc tries) (n # nextAll n))" for ps
      using Suc.hyps(1) [OF k] .
    then show ?thesis
      unfolding unfold tk using Some by (simp add: sel_next_single nextAll_eq [of e] kept_text_def)
  qed
qed

lemma summary_loop_next:
  "summary_loop (sel_next [h]) [] 0 = kept_text (take 6 (nextAll h))"
proof (cases "el_next h")
  case None
  then show ?thesis by (simp add: sel_next_single summary_loop_empty nextAll_eq [of h] kept_text_def)
next
  case (Some n)
  then show ?thesis
    by (simp add: sel_next_single summary_loop_single nextAll_eq [of h])
qed


subsection \<open>Splitting, trimming and the year pattern\<close>

lemma js_split_nonempty: "js_split d s \<noteq> []"
  by (induction s) (auto split: list.splits)

lemma js_split_join: "join [d] (js_split d s) = s"
proof (induction s)
  case Nil
  then show ?case by simp
next
  case (Cons c cs)
  obtain x xs where sp: "js_split d cs = x # xs"
    using js_split_nonempty [of d cs] by (cases "js_split d cs") auto
  show ?case
  proof (cases "c = d")
    case True
    then show ?thesis using Cons sp by simp
  next
    case False
    then have "join [d] (js_split d (c # cs)) = c # join [d] (x # xs)"
      using sp by (cases xs) simp_all
    then show ?thesis using Cons sp by simp
  qed
qed

lemma js_split_no_separator: "p \<in> set (js_split d s) \<Longrightarrow> d \<notin> set p"
  by (induction s arbitrary: p) (auto split: if_splits list.splits)

lemma js_split_example:
  "map trim (js_split 0x2C (js ''a, b ,,c'')) = [js ''a'', js ''b'', [], js ''c'']"
  by (simp add: js_def trim_def isWhiteSpace_def)

lemma match_year_examples:
  "match_year False (js ''Report 2023, issued'') = Some (js ''2023'')"
  "match_year False (js ''ref 12023 and 1999'') = Some (js ''1999'')"
  "match_year False (js ''x2023 20231 2100'') = None"
  by (simp_all add: js_def isWordChar_def isDigit_def)

lemma trim_example: "trim (js ''  a b  '') = js ''a b''"
  by (simp add: js_def trim_def isWhiteSpace_def)

lemma regex_test_i_example:
  "regex_test_i [js ''esg'', js ''csr''] (js ''Our ESG work'')"
  "\<not> regex_test_i [js ''esg'', js ''csr''] (js ''Our E S G work'')"
  by (simp_all add: js_def canonicalize_def)

subsection \<open>The long sample page\<close>

lemma demo_par_text_length: "length demo_par_text = 1000"
  by (simp add: demo_par_text_def)

lemma demo_par_text_trim: "trim demo_par_text = demo_par_text"
  by (simp add: demo_par_text_def trim_def isWhiteSpace_def)

lemma demo_par_text_nonempty: "demo_par_text \<noteq> []"
  using demo_par_text_length by auto

lemma demo_pars_7: "demo_pars 7 = demo_pars (Suc (Suc (Suc (Suc (Suc (Suc (Suc 0)))))))"
  by (simp add: eval_nat_numeral)

lemma demo_long_kept:
  "kept_text (take 6 (nextAll demo_long_heading)) =
     [demo_par_text, demo_par_text, demo_par_text, demo_par_text, demo_par_text, demo_par_text]"
  by (simp add: demo_long_heading_def demo_pars_7 kept_text_def demo_par_text_trim
       demo_par_text_nonempty)

lemma demo_long_execHeading: "execHeading demo_long_page = [demo_long_heading]"
  unfolding execHeading_eq demo_long_page_def
  by (simp add: sel_first_def contains_def demo_long_heading_def js_def)

lemma demo_long_siblings: "length (nextAll demo_long_heading) = 7"
  by (simp add: demo_long_heading_def demo_pars_7)

subsection \<open>Sets in insertion order\<close>

lemma remdups_drop_later: "x \<in> set B \<Longrightarrow> remdups (A @ x # B) = remdups (A @ B)"
  by (induction A) auto

lemma foldl_Set_add:
  "distinct acc \<Longrightarrow> foldl Set_add acc xs = rev (remdups (rev xs @ rev acc))"
proof (induction xs arbitrary: acc)
  case Nil
  then show ?case by (simp add: distinct_remdups_id)
next
  case (Cons x xs)
  show ?case
  proof (cases "x \<in> set acc")
    case True
    then have "foldl Set_add acc (x # xs) = foldl Set_add acc xs" by (simp add: Set_add_def)
    also have "\<dots> = rev (remdups (rev xs @ rev acc))" using Cons by simp
    also have "remdups (rev xs @ rev acc) = remdups (rev xs @ x # rev acc)"
      using True by (simp add: remdups_drop_later)
    finally show ?thesis by simp
  next
    case False
    then have "foldl Set_add acc (x # xs) = foldl Set_add (acc @ [x]) xs" by (simp add: Set_add_def)
    also have "\<dots> = rev (remdups (rev xs @ rev (acc @ [x])))"
      using Cons.IH [of "acc @ [x]"] Cons.prems False by simp
    finally show ?thesis by simp
  qed
qed

lemma Array_from_Set_first_occurrences: "Array_from_Set xs = rev (remdups (rev xs))"
  using foldl_Set_add [of "[]" xs] by (simp add: Array_from_Set_def)

lemma Array_from_Set_distinct: "distinct (Array_from_Set xs)"
  by (simp add: Array_from_Set_first_occurrences)

lemma Array_from_Set_set: "set (Array_from_Set xs) = set xs"
  by (simp add: Array_from_Set_first_occurrences)

lemma Array_from_Set_length: "length (Array_from_Set xs) = card (set xs)"
  using distinct_card [OF Array_from_Set_distinct, of xs] by (simp add: Array_from_Set_set)

lemma Array_from_Set_Cons: "Array_from_Set (x # xs) = x # Array_from_Set (removeAll x xs)"
proof -
  have "remdups (ys @ [x]) = remdups (removeAll x ys) @ [x]" for ys
    by (induction ys) auto
  then show ?thesis
    by (simp add: Array_from_Set_first_occurrences removeAll_filter_not_eq rev_filter)
qed

subsection \<open>The handler\<close>

lemma save_pdfs_eq:
  "save_pdfs dollar u xs (ds, lg) =
     (ds @ map (page_record dollar u) xs, lg @ map Info_Saved_PDF_candidate xs)"
  by (induction xs arbitrary: ds lg) simp_all

lemma pdf_each_throws:
  assumes "el \<in> set els" and "sel_attr ''href'' [el] = Some href" and "href \<noteq> []"
    and "url_href api href loadedUrl = None"
  shows "pdf_each api loadedUrl els pdfs = Inl TypeError"
  using assms(1)
proof (induction els arbitrary: pdfs)
  case Nil
  then show ?case by simp
next
  case (Cons e es)
  show ?case
  proof (cases "e = el")
    case True
    then show ?thesis using assms(2-4) by simp
  next
    case False
    with Cons have "pdf_each api loadedUrl es ps = Inl TypeError" for ps by simp
    then show ?thesis by (simp split: option.splits)
  qed
qed

lemma pushed_tags:
  "r \<in> set (pushed (requestHandler cfg api request dollar links)) \<Longrightarrow>
   tags r = Array_from_Set (tags_of dollar)"
  by (auto simp: requestHandler_def extraction_def Let_def save_pdfs_eq page_record_def
        split: sum.splits if_splits)

lemma execHeading_empty_iff:
  "execHeading dollar = [] \<longleftrightarrow>
     (\<forall>el\<in>set (dollar (Css ''*'')). \<not> contains ''Summary'' el \<and> \<not> contains ''EXECUTIVE SUMMARY'' el)"
  unfolding execHeading_eq sel_first_def
  by (auto simp: filter_empty_conv take_eq_Nil)

subsection \<open>The sample pages\<close>

lemmas page_simps = demo_anchor_def demo_meta_def demo_el_def sel_attr_def sel_text_def sel_first_def
  loadedUrl_of_def

lemma demo_pdf_found:
  "find_pdfs demo_cfg demo_api demo_pdf_page (loadedUrl_of (demo_request ''https://example.com/'')) =
     Inr (map js [''https://example.com/1.pdf'', ''https://example.com/2.pdf'',
                  ''https://example.com/1.pdf'', ''https://example.com/3.pdf'',
                  ''https://example.com/4.pdf'', ''https://example.com/5.pdf'',
                  ''https://example.com/6.pdf'', ''https://example.com/7.pdf'',
                  ''https://example.com/8.pdf''])"
  by (simp add: find_pdfs_def demo_pdf_page_def demo_simps page_simps endsWith_def toLowerCase_def)

lemma demo_gov_none:
  "find_pdfs demo_cfg demo_api demo_gov_page (loadedUrl_of (demo_request ''https://example.com/'')) = Inr []"
  by (simp add: find_pdfs_def demo_gov_page_def)

lemma demo_shop_none:
  "find_pdfs demo_cfg demo_api demo_shop_page (loadedUrl_of (demo_request ''https://example.com/'')) = Inr []"
  by (simp add: find_pdfs_def demo_shop_page_def)

lemma demo_gov_summary: "exec_summary_of demo_gov_page = []"
  by (simp add: exec_summary_of_def execHeading_eq demo_gov_page_def page_simps contains_def js_def trim_def)

lemma demo_shop_summary: "exec_summary_of demo_shop_page = []"
  by (simp add: exec_summary_of_def execHeading_eq demo_shop_page_def page_simps contains_def js_def trim_def)

lemma demo_gov_keyword:
  "regex_test_i [js ''sustainability'', js ''esg'', js ''csr'', js ''environmental'',
                 js ''social'', js ''governance'', js ''sustainability report'', js ''esg report'']
     (take 2000 (sel_text (demo_gov_page (Css ''body''))))"
  by (simp add: demo_gov_page_def page_simps js_def canonicalize_def)

lemma demo_shop_keyword:
  "\<not> regex_test_i [js ''sustainability'', js ''esg'', js ''csr'', js ''environmental'',
                 js ''social'', js ''governance'', js ''sustainability report'', js ''esg report'']
     (take 2000 (sel_text (demo_shop_page (Css ''body''))))"
  by (simp add: demo_shop_page_def page_simps js_def canonicalize_def)

lemma demo_tags_entries:
  "keyword_entries demo_tags_page = [js ''ESG'', js ''esg'', js ''Sustainability'']"
  by (simp add: keyword_entries_def demo_tags_page_def page_simps js_def trim_def isWhiteSpace_def)

lemma demo_tags_body:
  "regex_test_i [js ''esg''] (sel_text (demo_tags_page (Css ''body''))) \<and>
   regex_test_i [js ''sustainability''] (sel_text (demo_tags_page (Css ''body'')))"
  by (simp add: demo_tags_page_def page_simps js_def canonicalize_def)

lemmas demo_lower_simps = demo_lower_page_def demo_lower_heading_def demo_lower_intro_def
  demo_lower_article_def demo_lower_para_def

lemma demo_lower_no_match:
  "\<forall>el\<in>set (demo_lower_page (Css ''*'')).
     \<not> contains ''Summary'' el \<and> \<not> contains ''EXECUTIVE SUMMARY'' el"
  by (simp add: demo_lower_simps demo_el_def contains_def js_def)

section \<open>Link admission\<close>

text \<open>
  C5. A candidate whose URL the constructor cannot parse is never refused: the throw is
  swallowed by the empty \<^verbatim>\<open>catch\<close> and the candidate is returned, whatever the origin
  request and whether or not the host restriction is on.
\<close>

theorem malformed_candidate_admitted:
  "url_host api (req_url r) = None \<Longrightarrow> transformRequestFunction cfg api request r = Some r"
  by (simp add: transformRequestFunction_def split: option.splits)

theorem malformed_candidate_admitted_witness:
  "followInternalOnly demo_cfg \<and>
   url_host demo_api (req_url (demo_request ''http://['')) = None \<and>
   transformRequestFunction demo_cfg demo_api
     (demo_request ''https://example.com/'') (demo_request ''http://['') =
   Some (demo_request ''http://['')"
  using malformed_candidate_admitted
    [of demo_api "demo_request ''http://[''" demo_cfg "demo_request ''https://example.com/''"]
  by (simp add: demo_simps)

text \<open>
  C3, as stated, fails. The start host is read with \<^verbatim>\<open>new URL(...)\<close> from the
  \<^verbatim>\<open>startHost\<close> tag, so a tag that is a bare host name (not a URL) makes the constructor
  throw; the empty \<^verbatim>\<open>catch\<close> then admits the candidate whatever its host. Here the
  origin carries the tag \<^verbatim>\<open>example.com\<close> and the well-formed candidate
  \<^verbatim>\<open>https://other.org/\<close>, of host \<^verbatim>\<open>other.org\<close>, is admitted.
\<close>

theorem host_scope_iff_counterexample:
  "followInternalOnly demo_cfg \<and>
   url_host demo_api (req_url (demo_request ''https://other.org/'')) = Some (js ''other.org'') \<and>
   userData_startHost (demo_tagged ''https://example.com/'' ''example.com'') = Some (js ''example.com'') \<and>
   url_host demo_api (js ''example.com'') = None \<and>
   transformRequestFunction demo_cfg demo_api
     (demo_tagged ''https://example.com/'' ''example.com'') (demo_request ''https://other.org/'') =
   Some (demo_request ''https://other.org/'')"
  by (simp add: demo_simps transformRequestFunction_def)

text \<open>
  C3, amended. With the host restriction on, for a candidate whose URL parses and an
  origin whose start-host source parses (the source is the \<^verbatim>\<open>startHost\<close> tag when it is
  present and non-empty, and the origin's own URL otherwise), the candidate is admitted
  if and only if its host equals the host of that source; otherwise it is dropped.
\<close>

theorem host_scope_iff:
  assumes "followInternalOnly cfg"
    and "url_host api (req_url r) = Some candidateHost"
    and "url_host api (case userData_startHost request of
                         None \<Rightarrow> req_url request
                       | Some t \<Rightarrow> if t = [] then req_url request else t) = Some startHost"
  shows "transformRequestFunction cfg api request r =
           (if candidateHost = startHost then Some r else None)"
  using assms by (simp add: transformRequestFunction_def js_or_def split: option.splits)

theorem host_scope_iff_witness:
  "followInternalOnly demo_cfg \<and>
   url_host demo_api (req_url (demo_request ''https://other.org/'')) = Some (js ''other.org'') \<and>
   url_host demo_api (req_url (demo_request ''https://example.com/'')) = Some (js ''example.com'') \<and>
   url_host demo_api (req_url (demo_request ''https://example.com/about'')) = Some (js ''example.com'') \<and>
   transformRequestFunction demo_cfg demo_api
     (demo_request ''https://example.com/'') (demo_request ''https://other.org/'') = None \<and>
   transformRequestFunction demo_cfg demo_api
     (demo_request ''https://example.com/'') (demo_request ''https://example.com/about'') =
   Some (demo_request ''https://example.com/about'')"
  using host_scope_iff
    [of demo_cfg demo_api "demo_request ''https://other.org/''" "js ''other.org''"
        "demo_request ''https://example.com/''" "js ''example.com''"]
    host_scope_iff
    [of demo_cfg demo_api "demo_request ''https://example.com/about''" "js ''example.com''"
        "demo_request ''https://example.com/''" "js ''example.com''"]
  by (simp add: demo_simps)

text \<open>
  C4, as stated, fails. The function returns the candidate \<open>r\<close> itself and never writes
  \<^verbatim>\<open>userData.startHost\<close>: here the origin carries a tag and the admitted candidate
  carries none.
\<close>

theorem startHost_copied_counterexample:
  "transformRequestFunction demo_cfg demo_api
     (demo_tagged ''https://example.com/'' ''https://example.com/'')
     (demo_request ''https://example.com/about'') =
   Some (demo_request ''https://example.com/about'') \<and>
   userData_startHost (demo_tagged ''https://example.com/'' ''https://example.com/'') =
     Some (js ''https://example.com/'') \<and>
   userData_startHost (demo_request ''https://example.com/about'') = None"
  by (simp add: demo_simps transformRequestFunction_def)

text \<open>
  C4, amended. An admitted candidate is enqueued unchanged, so it carries the tag it
  already had and nothing is copied from the origin. Host scope is transitive all the
  same on a crawl path of untagged requests with parseable URLs: with the host
  restriction on, every request on the path has the host of the first one, because each
  admission compares the candidate with the origin's own URL.
\<close>

theorem scope_transitive_without_tag:
  "(transformRequestFunction cfg api request r = None \<or>
    transformRequestFunction cfg api request r = Some r) \<and>
   (followInternalOnly cfg \<longrightarrow> crawl_path cfg api (seed # rs) \<longrightarrow>
    (\<forall>x\<in>set (seed # rs). userData_startHost x = None \<and> url_host api (req_url x) \<noteq> None) \<longrightarrow>
    (\<forall>x\<in>set rs. url_host api (req_url x) = url_host api (req_url seed)))"
proof
  show "transformRequestFunction cfg api request r = None \<or>
        transformRequestFunction cfg api request r = Some r"
    by (simp add: transformRequestFunction_def split: option.splits)
next
  have "followInternalOnly cfg \<Longrightarrow> crawl_path cfg api (seed # rs) \<Longrightarrow>
        (\<forall>x\<in>set (seed # rs). userData_startHost x = None \<and> url_host api (req_url x) \<noteq> None) \<Longrightarrow>
        (\<forall>x\<in>set rs. url_host api (req_url x) = url_host api (req_url seed))"
  proof (induction rs arbitrary: seed)
    case Nil
    then show ?case by simp
  next
    case (Cons b rs)
    from Cons.prems have adm: "transformRequestFunction cfg api seed b = Some b"
      and path: "crawl_path cfg api (b # rs)" by simp_all
    from Cons.prems obtain hs hb where hs: "url_host api (req_url seed) = Some hs"
      and hb: "url_host api (req_url b) = Some hb" and ts: "userData_startHost seed = None"
      by auto
    from adm Cons.prems(1) hs hb ts have eq: "hb = hs"
      by (simp add: transformRequestFunction_def js_or_def split: if_splits)
    have "\<forall>x\<in>set rs. url_host api (req_url x) = url_host api (req_url b)"
      using Cons.IH [OF Cons.prems(1) path] Cons.prems(3) by simp
    with hs hb eq show ?case by simp
  qed
  then show "followInternalOnly cfg \<longrightarrow> crawl_path cfg api (seed # rs) \<longrightarrow>
    (\<forall>x\<in>set (seed # rs). userData_startHost x = None \<and> url_host api (req_url x) \<noteq> None) \<longrightarrow>
    (\<forall>x\<in>set rs. url_host api (req_url x) = url_host api (req_url seed))"
    by blast
qed

theorem scope_transitive_without_tag_witness:
  "followInternalOnly demo_cfg \<and>
   crawl_path demo_cfg demo_api
     [demo_request ''https://example.com/'', demo_request ''https://example.com/about'',
      demo_request ''https://example.com/team''] \<and>
   url_host demo_api (req_url (demo_request ''https://example.com/team'')) =
   url_host demo_api (req_url (demo_request ''https://example.com/''))"
  using scope_transitive_without_tag
    [of demo_cfg demo_api "demo_request ''https://example.com/''"
        "demo_request ''https://example.com/about''" "demo_request ''https://example.com/''"
        "[demo_request ''https://example.com/about'', demo_request ''https://example.com/team'']"]
  by (simp add: demo_simps transformRequestFunction_def)

section \<open>Executive summary\<close>

text \<open>
  C6. When a heading is found (\<open>execHeading\<close> holds the element \<open>h\<close>), the summary is
  made of the first six following sibling elements of \<open>h\<close>, or of all of them when there
  are fewer: the trimmed text of each is kept when it is not empty, the kept texts are
  joined with two line feeds, and the result is cut to 4000 code units. If the joined
  text is longer than 4000, the summary has length 4000 and is a prefix of it.
\<close>

theorem exec_summary_from_heading:
  assumes "execHeading dollar = [h]"
  shows "exec_summary_of dollar =
           take 4000 (join (js [CHR 0x0A, CHR 0x0A]) (kept_text (take 6 (nextAll h)))) \<and>
         (4000 < length (join (js [CHR 0x0A, CHR 0x0A]) (kept_text (take 6 (nextAll h)))) \<longrightarrow>
            length (exec_summary_of dollar) = 4000 \<and>
            prefix (exec_summary_of dollar)
              (join (js [CHR 0x0A, CHR 0x0A]) (kept_text (take 6 (nextAll h)))))"
proof -
  have eq: "exec_summary_of dollar =
              take 4000 (join (js [CHR 0x0A, CHR 0x0A]) (kept_text (take 6 (nextAll h))))"
    using assms by (simp add: exec_summary_of_def Let_def slice0_def summary_loop_next)
  show ?thesis unfolding eq by (simp add: take_is_prefix)
qed

theorem exec_summary_from_heading_witness:
  "execHeading demo_long_page = [demo_long_heading] \<and>
   length (nextAll demo_long_heading) = 7 \<and>
   length (join (js [CHR 0x0A, CHR 0x0A]) (kept_text (take 6 (nextAll demo_long_heading)))) = 6010 \<and>
   length (exec_summary_of demo_long_page) = 4000"
  using exec_summary_from_heading [of demo_long_page demo_long_heading] demo_long_execHeading
  by (simp add: demo_long_kept js_def demo_par_text_length demo_long_siblings)

text \<open>
  C7. The anchor should be the first element whose text matches the phrase ignoring
  case, and the filter the code applies at that step is the ignore-case test
  \<^verbatim>\<open>/executive summary|summary/i\<close>. The code misses it: the selection handed to the
  filter is made with \<^verbatim>\<open>:contains\<close>, which is case-sensitive and lists three spellings
  only. On the sample page the heading reads \<^verbatim>\<open>executive summary\<close>. It passes the filter
  and is the first element to do so, and its following siblings hold the texts
  \<^verbatim>\<open>Intro\<close> and \<^verbatim>\<open>Para\<close>; yet the code selects no element and returns the fallback
  paragraph as the summary.
\<close>

theorem lower_case_heading_not_found:
  "regex_test_i [js ''executive summary'', js ''summary''] (sel_text [demo_lower_heading]) \<and>
   claimed_execHeading demo_lower_page = [demo_lower_heading] \<and>
   kept_text (take 6 (nextAll demo_lower_heading)) = [js ''Intro'', js ''Para''] \<and>
   execHeading demo_lower_page = [] \<and>
   exec_summary_of demo_lower_page = js ''Para''"
proof -
  have f: "regex_test_i [js ''executive summary'', js ''summary''] (sel_text [demo_lower_heading])"
    by (simp add: demo_lower_simps demo_el_def sel_text_def js_def canonicalize_def)
  have a: "claimed_execHeading demo_lower_page = [demo_lower_heading]"
    by (simp add: claimed_execHeading_def demo_lower_simps demo_el_def sel_first_def sel_text_def
          js_def canonicalize_def)
  have k: "kept_text (take 6 (nextAll demo_lower_heading)) = [js ''Intro'', js ''Para'']"
    by (simp add: kept_text_def demo_lower_simps demo_el_def trim_def isWhiteSpace_def js_def)
  have b: "execHeading demo_lower_page = []"
    using demo_lower_no_match by (simp add: execHeading_empty_iff)
  have c: "exec_summary_of demo_lower_page = js ''Para''"
    by (simp add: exec_summary_of_def b Let_def demo_lower_simps demo_el_def sel_first_def
          sel_text_def trim_def isWhiteSpace_def slice0_def js_def)
  from f a k b c show ?thesis by blast
qed

section \<open>Title and tags\<close>

text \<open>
  C8. The title is the first non-empty string among, in this order: the content of the
  open-graph title meta, the content of the twitter title meta, the trimmed text of the
  first \<^verbatim>\<open>h1\<close>, and the trimmed text of the \<^verbatim>\<open>title\<close> selection; it is empty when all four
  are. In particular an open-graph title \<^verbatim>\<open>OG Title\<close> wins whatever the \<^verbatim>\<open>h1\<close> holds.
\<close>

theorem title_cascade:
  "title_heuristics dollar =
     first_non_empty
       [attr_or_empty (sel_attr ''content'' (dollar (MetaProperty ''og:title''))),
        attr_or_empty (sel_attr ''content'' (dollar (MetaName ''twitter:title''))),
        trim (sel_text (sel_first (dollar (Css ''h1'')))),
        trim (sel_text (dollar (Css ''title'')))] \<and>
   (sel_attr ''content'' (dollar (MetaProperty ''og:title'')) = Some (js ''OG Title'') \<longrightarrow>
    title_heuristics dollar = js ''OG Title'')"
  by (auto simp: title_heuristics_def first_non_empty_def attr_or_empty_def js_or_def js_def
        split: option.splits)

theorem title_cascade_witness:
  "sel_attr ''content'' (demo_title_page (MetaProperty ''og:title'')) = Some (js ''OG Title'') \<and>
   trim (sel_text (sel_first (demo_title_page (Css ''h1'')))) = js ''H1 Title'' \<and>
   title_heuristics demo_title_page = js ''OG Title''"
proof -
  have og: "sel_attr ''content'' (demo_title_page (MetaProperty ''og:title'')) = Some (js ''OG Title'')"
    by (simp add: demo_title_page_def page_simps)
  have h1: "trim (sel_text (sel_first (demo_title_page (Css ''h1'')))) = js ''H1 Title''"
    by (simp add: demo_title_page_def page_simps trim_def isWhiteSpace_def js_def)
  from title_cascade [of demo_title_page] og
  have "title_heuristics demo_title_page = js ''OG Title''" by blast
  with og h1 show ?thesis by blast
qed

text \<open>
  C9. The tags of every pushed record are the distinct members of: the entries of the
  keywords meta, the literal \<^verbatim>\<open>esg\<close> when the body text matches \<^verbatim>\<open>/esg/i\<close>, and the
  literal \<^verbatim>\<open>sustainability\<close> when it matches \<^verbatim>\<open>/sustainability/i\<close>. Members are
  compared as strings, so entries that differ only in case stay apart.
\<close>

theorem tags_set:
  "set (Array_from_Set (tags_of dollar)) =
     set (keyword_entries dollar) \<union>
     (if regex_test_i [js ''esg''] (sel_text (dollar (Css ''body''))) then {js ''esg''} else {}) \<union>
     (if regex_test_i [js ''sustainability''] (sel_text (dollar (Css ''body'')))
      then {js ''sustainability''} else {}) \<and>
   distinct (Array_from_Set (tags_of dollar)) \<and>
   (\<forall>r\<in>set (pushed (requestHandler cfg api request dollar links)).
      tags r = Array_from_Set (tags_of dollar))"
  by (auto simp: Array_from_Set_set Array_from_Set_distinct pushed_tags tags_of_def
        keyword_entries_def Let_def split: option.splits)

theorem tags_set_witness:
  "keyword_entries demo_tags_page = [js ''ESG'', js ''esg'', js ''Sustainability''] \<and>
   set (Array_from_Set (tags_of demo_tags_page)) =
     {js ''ESG'', js ''esg'', js ''Sustainability'', js ''sustainability''} \<and>
   length (Array_from_Set (tags_of demo_tags_page)) = 4"
proof -
  have s: "set (Array_from_Set (tags_of demo_tags_page)) =
     {js ''ESG'', js ''esg'', js ''Sustainability'', js ''sustainability''}"
    using tags_set [of demo_tags_page demo_cfg demo_api "demo_request ''https://example.com/''" "[]"]
    by (simp add: demo_tags_entries demo_tags_body insert_commute)
  have d: "distinct (Array_from_Set (tags_of demo_tags_page))"
    by (simp add: Array_from_Set_distinct)
  have "length (Array_from_Set (tags_of demo_tags_page)) =
        card {js ''ESG'', js ''esg'', js ''Sustainability'', js ''sustainability''}"
    using distinct_card [OF d] s by simp
  also have "\<dots> = 4" by (simp add: js_def)
  finally show ?thesis using s demo_tags_entries by simp
qed

section \<open>Records pushed for a page\<close>

text \<open>
  C1. When the PDF links of a page are collected without a throw and there is at least
  one, the handler pushes one record for each of the first five distinct links, in the
  order of their first occurrence on the page: the number of records is the smaller of 5
  and the number of distinct links, the \<open>pdf_url\<close> fields are pairwise distinct, and every
  record carries the metadata of the page and the resolved URL of the page as \<open>url\<close>. The
  distinct links in first-occurrence order are \<open>rev (remdups (rev pdfs))\<close>, since
  \<open>remdups\<close> keeps the last occurrence of each member.
\<close>

theorem pdf_records_first_five:
  assumes "find_pdfs cfg api dollar (loadedUrl_of request) = Inr pdfs" and "pdfs \<noteq> []"
  shows "pushed (requestHandler cfg api request dollar links) =
           map (page_record dollar (loadedUrl_of request)) (take 5 (Array_from_Set pdfs)) \<and>
         length (pushed (requestHandler cfg api request dollar links)) = min 5 (card (set pdfs)) \<and>
         map pdf_url (pushed (requestHandler cfg api request dollar links)) =
           take 5 (rev (remdups (rev pdfs))) \<and>
         distinct (map pdf_url (pushed (requestHandler cfg api request dollar links))) \<and>
         (\<forall>r\<in>set (pushed (requestHandler cfg api request dollar links)).
            url r = loadedUrl_of request \<and>
            company r = company_heuristics dollar \<and> title r = title_heuristics dollar \<and>
            date r = date_heuristics dollar \<and> exec_summary r = exec_summary_of dollar \<and>
            tags r = Array_from_Set (tags_of dollar))"
proof -
  have p: "pushed (requestHandler cfg api request dollar links) =
           map (page_record dollar (loadedUrl_of request)) (take 5 (Array_from_Set pdfs))"
    using assms by (simp add: requestHandler_def extraction_def Let_def save_pdfs_eq)
  have m: "map pdf_url (map (page_record dollar (loadedUrl_of request)) us) = us" for us
    by (induction us) (simp_all add: page_record_def)
  show ?thesis unfolding p m
    by (auto simp: Array_from_Set_length Array_from_Set_distinct page_record_def
          Array_from_Set_first_occurrences [symmetric])
qed

theorem pdf_records_first_five_witness:
  "find_pdfs demo_cfg demo_api demo_pdf_page (loadedUrl_of (demo_request ''https://example.com/'')) =
     Inr (map js [''https://example.com/1.pdf'', ''https://example.com/2.pdf'',
                  ''https://example.com/1.pdf'', ''https://example.com/3.pdf'',
                  ''https://example.com/4.pdf'', ''https://example.com/5.pdf'',
                  ''https://example.com/6.pdf'', ''https://example.com/7.pdf'',
                  ''https://example.com/8.pdf'']) \<and>
   map pdf_url (pushed (requestHandler demo_cfg demo_api (demo_request ''https://example.com/'')
                          demo_pdf_page [])) =
     map js [''https://example.com/1.pdf'', ''https://example.com/2.pdf'',
             ''https://example.com/3.pdf'', ''https://example.com/4.pdf'',
             ''https://example.com/5.pdf'']"
proof -
  have "map pdf_url (pushed (requestHandler demo_cfg demo_api (demo_request ''https://example.com/'')
                          demo_pdf_page [])) =
        take 5 (rev (remdups (rev (map js [''https://example.com/1.pdf'', ''https://example.com/2.pdf'',
                  ''https://example.com/1.pdf'', ''https://example.com/3.pdf'',
                  ''https://example.com/4.pdf'', ''https://example.com/5.pdf'',
                  ''https://example.com/6.pdf'', ''https://example.com/7.pdf'',
                  ''https://example.com/8.pdf'']))))"
  proof -
    have ne: "map js [''https://example.com/1.pdf'', ''https://example.com/2.pdf'',
                  ''https://example.com/1.pdf'', ''https://example.com/3.pdf'',
                  ''https://example.com/4.pdf'', ''https://example.com/5.pdf'',
                  ''https://example.com/6.pdf'', ''https://example.com/7.pdf'',
                  ''https://example.com/8.pdf''] \<noteq> []"
      by (simp only: list.map list.distinct not_False_eq_True)
    show ?thesis
      by (rule pdf_records_first_five [OF demo_pdf_found ne, of "[]",
            THEN conjunct2, THEN conjunct2, THEN conjunct1])
  qed
  also have "\<dots> = map js [''https://example.com/1.pdf'', ''https://example.com/2.pdf'',
             ''https://example.com/3.pdf'', ''https://example.com/4.pdf'',
             ''https://example.com/5.pdf'']"
    by (simp add: js_def)
  finally show ?thesis using demo_pdf_found by simp
qed

text \<open>
  C2. When the PDF links of a page are collected without a throw and there is none, the
  handler pushes exactly one record, with an empty \<open>pdf_url\<close>, if the executive summary
  is not empty or the first 2000 code units of the body text match one of the eight
  keywords, ignoring case; otherwise it pushes nothing.
\<close>

theorem html_record_iff_likely_report:
  assumes "find_pdfs cfg api dollar (loadedUrl_of request) = Inr []"
  shows "pushed (requestHandler cfg api request dollar links) =
           (if exec_summary_of dollar \<noteq> [] \<or>
               regex_test_i [js ''sustainability'', js ''esg'', js ''csr'', js ''environmental'',
                             js ''social'', js ''governance'', js ''sustainability report'',
                             js ''esg report'']
                 (take 2000 (sel_text (dollar (Css ''body''))))
            then [page_record dollar (loadedUrl_of request) []] else []) \<and>
         pdf_url (page_record dollar (loadedUrl_of request) []) = []"
  using assms
  by (simp add: requestHandler_def extraction_def Let_def isLikelyReport_def slice0_def
        page_record_def)

theorem html_record_iff_likely_report_witness:
  "find_pdfs demo_cfg demo_api demo_gov_page (loadedUrl_of (demo_request ''https://example.com/'')) =
     Inr [] \<and>
   find_pdfs demo_cfg demo_api demo_shop_page (loadedUrl_of (demo_request ''https://example.com/'')) =
     Inr [] \<and>
   map pdf_url (pushed (requestHandler demo_cfg demo_api (demo_request ''https://example.com/'')
                          demo_gov_page [])) = [[]] \<and>
   pushed (requestHandler demo_cfg demo_api (demo_request ''https://example.com/'')
             demo_shop_page []) = []"
  using html_record_iff_likely_report [OF demo_gov_none, of "[]"]
    html_record_iff_likely_report [OF demo_shop_none, of "[]"]
  by (simp add: demo_gov_none demo_shop_none demo_gov_summary demo_shop_summary
        demo_gov_keyword demo_shop_keyword)

text \<open>
  C10. With PDF detection on, if some anchor of the page has a non-empty \<^verbatim>\<open>href\<close> that the
  URL constructor cannot resolve against the resolved URL of the page, the handler pushes
  no record for the page, whatever its other anchors hold; it logs the warning and
  returns, and the links of the page are enqueued as usual.
\<close>

theorem bad_href_aborts_page:
  assumes "detectPdfLinks cfg" and "el \<in> set (dollar (Css ''a[href]''))"
    and "sel_attr ''href'' [el] = Some href" and "href \<noteq> []"
    and "url_href api href (loadedUrl_of request) = None"
  shows "pushed (requestHandler cfg api request dollar links) = [] \<and>
         logged (requestHandler cfg api request dollar links) =
           [Info_Processing (loadedUrl_of request),
            Warning_Extraction_error (loadedUrl_of request)] \<and>
         enqueued (requestHandler cfg api request dollar links) =
           List.map_filter (transformRequestFunction cfg api request) links"
proof -
  have "find_pdfs cfg api dollar (loadedUrl_of request) = Inl TypeError"
    using assms by (simp add: find_pdfs_def pdf_each_throws)
  then show ?thesis by (simp add: requestHandler_def extraction_def Let_def)
qed

theorem bad_href_aborts_page_witness:
  "detectPdfLinks demo_cfg \<and>
   demo_anchor ''http://['' \<in> set (demo_bad_link_page (Css ''a[href]'')) \<and>
   url_href demo_api (js ''/1.pdf'') (loadedUrl_of (demo_request ''https://example.com/'')) =
     Some (js ''https://example.com/1.pdf'') \<and>
   url_href demo_api (js ''http://['') (loadedUrl_of (demo_request ''https://example.com/'')) = None \<and>
   pushed (requestHandler demo_cfg demo_api (demo_request ''https://example.com/'')
             demo_bad_link_page []) = []"
  using bad_href_aborts_page
    [of demo_cfg "demo_anchor ''http://[''" demo_bad_link_page "js ''http://[''" demo_api
        "demo_request ''https://example.com/''" "[]"]
  by (simp add: demo_bad_link_page_def demo_simps page_simps)

end
